theory Spec2Isabelle
  imports Main "HOL-Library.Word" "HOL-Library.Sublist"
begin

unbundle bit_operations_syntax

section \<open>Python strings\<close>

text \<open>
  A Python \<open>str\<close> is modelled as a \<open>string\<close>, one \<open>char\<close> per code point, which restricts
  the model to code points below 256. The whitespace test is \<open>str.isspace\<close> on that range;
  the regex class \<open>\s\<close> of a \<open>str\<close> pattern and \<open>str.strip()\<close> both use it.
\<close>

definition isspace :: "char \<Rightarrow> bool" where
  "isspace c = (of_char c \<in> {9, 10, 11, 12, 13, 28, 29, 30, 31, 32, 133, 160 :: nat})"

definition startswith :: "string \<Rightarrow> string \<Rightarrow> bool" where
  "startswith s p = (take (length p) s = p)"

text \<open>\<open>sub in s\<close> on strings.\<close>

fun contains :: "string \<Rightarrow> string \<Rightarrow> bool" where
  "contains sub [] = (sub = [])"
| "contains sub (c # cs) = (startswith (c # cs) sub \<or> contains sub cs)"

definition strip :: "string \<Rightarrow> string" where
  "strip s = rev (dropWhile isspace (rev (dropWhile isspace s)))"

text \<open>
  \<open>s.replace(old, new)\<close>: the occurrences of \<open>old\<close> are replaced from the left, without
  overlap; an empty \<open>old\<close> matches before every character and at the end.
\<close>

fun replace_from :: "string \<Rightarrow> string \<Rightarrow> nat \<Rightarrow> string \<Rightarrow> string" where
  "replace_from old new skip [] = []"
| "replace_from old new (Suc k) (c # cs) = replace_from old new k cs"
| "replace_from old new 0 (c # cs) =
     (if startswith (c # cs) old then new @ replace_from old new (length old - 1) cs
      else c # replace_from old new 0 cs)"

definition str_replace :: "string \<Rightarrow> string \<Rightarrow> string \<Rightarrow> string" where
  "str_replace s old new =
     (if old = [] then new @ concat (map (\<lambda>c. c # new) s) else replace_from old new 0 s)"

section \<open>The regular expressions of the \<open>re\<close> module\<close>

text \<open>
  The patterns of the program are written in the syntax of Python's \<open>re\<close>, a backtracking
  matcher: where a pattern can match in several ways, the alternatives are tried in a fixed
  order (a greedy quantifier tries more repetitions first, a lazy one fewer) and the first
  way that lets the whole pattern match is the match. The matcher below returns every way a
  pattern can match at the start of the text, in that order; its head is the match.
\<close>

datatype cls =
    Lit char              \<comment> \<open>a literal character\<close>
  | Space                 \<comment> \<open>\<open>\s\<close>\<close>
  | Dot                   \<comment> \<open>\<open>.\<close>: any character but a newline\<close>
  | OneOf "char list"     \<comment> \<open>\<open>[...]\<close>\<close>
  | NoneOf "char list"    \<comment> \<open>\<open>[^...]\<close>\<close>

fun accepts :: "cls \<Rightarrow> char \<Rightarrow> bool" where
  "accepts (Lit a) c = (c = a)"
| "accepts Space c = isspace c"
| "accepts Dot c = (c \<noteq> CHR 0x0A)"
| "accepts (OneOf as) c = (c \<in> set as)"
| "accepts (NoneOf as) c = (c \<notin> set as)"

datatype re =
    Eps                   \<comment> \<open>the empty pattern\<close>
  | Sym cls               \<comment> \<open>one character of a class\<close>
  | Cat re re             \<comment> \<open>\<open>r1 r2\<close>\<close>
  | Opt re                \<comment> \<open>\<open>r?\<close>, greedy\<close>
  | Star re               \<comment> \<open>\<open>r*\<close>, greedy\<close>
  | Plus re               \<comment> \<open>\<open>r+\<close>, greedy\<close>
  | LazyStar re           \<comment> \<open>\<open>r*?\<close>\<close>
  | Grp nat re            \<comment> \<open>\<open>(r)\<close>, the capturing group of that number\<close>

text \<open>
  A matcher state is the groups captured so far (latest first) and the text still to match.
\<close>

type_synonym groups = "(nat \<times> string) list"
type_synonym mstate = "groups \<times> string"

text \<open>
  Repetition. A further round is entered only from a state that has consumed a character,
  so the text left bounds the number of rounds; \<open>n\<close> is that bound.
\<close>

primrec greedy :: "nat \<Rightarrow> (mstate \<Rightarrow> mstate list) \<Rightarrow> mstate \<Rightarrow> mstate list" where
  "greedy 0 f st = [st]"
| "greedy (Suc n) f st =
     concat (map (\<lambda>st'. if length (snd st') < length (snd st) then greedy n f st' else [])
                 (f st)) @ [st]"

primrec lazy :: "nat \<Rightarrow> (mstate \<Rightarrow> mstate list) \<Rightarrow> mstate \<Rightarrow> mstate list" where
  "lazy 0 f st = [st]"
| "lazy (Suc n) f st =
     st # concat (map (\<lambda>st'. if length (snd st') < length (snd st) then lazy n f st' else [])
                      (f st))"

primrec bt :: "re \<Rightarrow> mstate \<Rightarrow> mstate list" where
  "bt Eps = (\<lambda>st. [st])"
| "bt (Sym k) = (\<lambda>st. case snd st of [] \<Rightarrow> []
                        | c # cs \<Rightarrow> if accepts k c then [(fst st, cs)] else [])"
| "bt (Cat r1 r2) = (\<lambda>st. concat (map (bt r2) (bt r1 st)))"
| "bt (Opt r) = (\<lambda>st. bt r st @ [st])"
| "bt (Star r) = (\<lambda>st. greedy (length (snd st)) (bt r) st)"
| "bt (Plus r) = (\<lambda>st. concat (map (\<lambda>st'. greedy (length (snd st')) (bt r) st') (bt r st)))"
| "bt (LazyStar r) = (\<lambda>st. lazy (length (snd st)) (bt r) st)"
| "bt (Grp n r) = (\<lambda>st. map (\<lambda>st'. ((n, take (length (snd st) - length (snd st')) (snd st))
                                      # fst st', snd st'))
                            (bt r st))"

declare bt.simps [simp del]

text \<open>A literal string as a pattern (what \<open>re.escape\<close> produces for it).\<close>

definition str :: "string \<Rightarrow> re" where
  "str s = foldr (\<lambda>c r. Cat (Sym (Lit c)) r) s Eps"

text \<open>
  \<open>match_at r s\<close>: the match of \<open>r\<close> at the start of \<open>s\<close>, as the groups, the matched text and
  the text after it. A match of no characters counts as no match: no pattern of this
  program has one.
\<close>

definition match_at :: "re \<Rightarrow> string \<Rightarrow> (groups \<times> string \<times> string) option" where
  "match_at r s =
     (case bt r ([], s) of
        [] \<Rightarrow> None
      | (g, rest) # _ \<Rightarrow>
          if length rest < length s then Some (g, take (length s - length rest) s, rest)
          else None)"

text \<open>The value of a group in a match; a group that took no part is the empty string.\<close>

definition group :: "groups \<Rightarrow> nat \<Rightarrow> string" where
  "group g n = (case map_of g n of None \<Rightarrow> [] | Some v \<Rightarrow> v)"

text \<open>
  \<open>scan r s\<close>: the matches of \<open>r\<close> in \<open>s\<close> from left to right, without overlap, each with the
  unmatched text before it, and the unmatched text after the last one.
\<close>

function scan :: "re \<Rightarrow> string \<Rightarrow> (string \<times> groups \<times> string) list \<times> string" where
  "scan r s =
     (case match_at r s of
        Some (g, m, rest) \<Rightarrow>
          if length rest < length s
          then (let (ms, after) = scan r rest in (([], g, m) # ms, after))
          else ([], s)
      | None \<Rightarrow>
          (case s of
             [] \<Rightarrow> ([], [])
           | c # cs \<Rightarrow>
               (case scan r cs of
                  ([], after) \<Rightarrow> ([], c # after)
                | ((pre, g, m) # ms, after) \<Rightarrow> ((c # pre, g, m) # ms, after))))"
  by pat_completeness auto
termination
  by (relation "measure (\<lambda>(r, s). length s)") auto

declare scan.simps [simp del]

text \<open>\<open>re.findall\<close>, as the groups of each match.\<close>

definition findall :: "re \<Rightarrow> string \<Rightarrow> groups list" where
  "findall r s = map (\<lambda>(pre, g, m). g) (fst (scan r s))"

subsection \<open>Replacement templates\<close>

text \<open>
  \<open>re.sub(pattern, repl, string)\<close> with a string \<open>repl\<close> reads \<open>repl\<close> as a template: a
  backslash starts an escape. The template is parsed before the search, so a malformed one
  raises whether or not the pattern matches. The patterns that the program passes to
  \<open>re.sub\<close> have no capturing group: the only group a template can refer to is group 0,
  the whole match.
\<close>

datatype titem = TChar char | TMatch

datatype exn =
    Re_error                       \<comment> \<open>\<open>re.error\<close>: bad escape, invalid group reference\<close>
  | IndexError                     \<comment> \<open>unknown group name\<close>
  | NameError string
  | Request_exception string       \<comment> \<open>raised by \<open>requests.get\<close>, with its message\<close>
  | Unsendable_url string          \<comment> \<open>\<open>MissingSchema\<close>, \<open>InvalidSchema\<close>, \<open>InvalidURL\<close> of \<open>requests\<close>\<close>

definition octdigit :: "char \<Rightarrow> bool" where
  "octdigit c = (c \<in> set ''01234567'')"

definition digit :: "char \<Rightarrow> bool" where
  "digit c = (c \<in> set ''0123456789'')"

definition ascii_letter :: "char \<Rightarrow> bool" where
  "ascii_letter c = (c \<in> set ''abcdefghijklmnopqrstuvwxyzABCDEFGHIJKLMNOPQRSTUVWXYZ'')"

definition digit_val :: "char \<Rightarrow> nat" where
  "digit_val c = of_char c - 48"

text \<open>The escapes that stand for one character.\<close>

definition simple_escape :: "char \<Rightarrow> char option" where
  "simple_escape c =
     (if c = CHR ''a'' then Some (CHR 0x07)
      else if c = CHR ''b'' then Some (CHR 0x08)
      else if c = CHR ''f'' then Some (CHR 0x0C)
      else if c = CHR ''n'' then Some (CHR 0x0A)
      else if c = CHR ''r'' then Some (CHR 0x0D)
      else if c = CHR ''t'' then Some (CHR 0x09)
      else if c = CHR ''v'' then Some (CHR 0x0B)
      else if c = CHR 0x5C then Some (CHR 0x5C)
      else None)"

text \<open>
  \<open>\g<name>\<close>. A name that is an identifier (\<open>str.isidentifier\<close>) is looked up among the
  named groups, and the pattern has none. Any other name is read as a number by \<open>int\<close>,
  which allows blanks around it, a sign and single underscores between digits; with no
  group in the pattern only a number equal to 0 is a valid reference.
\<close>

definition id_start :: "char \<Rightarrow> bool" where
  "id_start c =
     (ascii_letter c \<or> c = CHR ''_'' \<or> of_char c \<in> {170, 181, 186 :: nat} \<or>
      (192 \<le> (of_char c :: nat) \<and> (of_char c :: nat) \<le> 214) \<or>
      (216 \<le> (of_char c :: nat) \<and> (of_char c :: nat) \<le> 246) \<or>
      248 \<le> (of_char c :: nat))"

definition id_continue :: "char \<Rightarrow> bool" where
  "id_continue c = (id_start c \<or> digit c \<or> of_char c = (183 :: nat))"

definition isidentifier :: "string \<Rightarrow> bool" where
  "isidentifier name = (name \<noteq> [] \<and> id_start (hd name) \<and> list_all id_continue (tl name))"

text \<open>Digits with single underscores between them, all of the digits \<open>0\<close>.\<close>

fun zeros :: "string \<Rightarrow> bool" where
  "zeros [] = False"
| "zeros [c] = (c = CHR ''0'')"
| "zeros (c # d # cs) =
     (c = CHR ''0'' \<and> (if d = CHR ''_'' then zeros cs else zeros (d # cs)))"

text \<open>Digits with single underscores between them.\<close>

fun digits :: "string \<Rightarrow> bool" where
  "digits [] = False"
| "digits [c] = digit c"
| "digits (c # d # cs) = (digit c \<and> (if d = CHR ''_'' then digits cs else digits (d # cs)))"

definition unsigned :: "string \<Rightarrow> string" where
  "unsigned s = (case s of [] \<Rightarrow> [] | c # cs \<Rightarrow> if c = CHR ''+'' \<or> c = CHR ''-'' then cs else s)"

definition group_ref :: "string \<Rightarrow> exn + titem" where
  "group_ref name =
     (if isidentifier name then Inl IndexError
      else if zeros (unsigned (strip name)) then Inr TMatch
      else Inl Re_error)"

function parse_template :: "string \<Rightarrow> exn + titem list" where
  "parse_template [] = Inr []"
| "parse_template (c # cs) =
     (if c \<noteq> CHR 0x5C then map_sum id (Cons (TChar c)) (parse_template cs)
      else case cs of
        [] \<Rightarrow> Inl Re_error
      | e # es \<Rightarrow>
          if e = CHR ''g'' then
            (case es of
               [] \<Rightarrow> Inl Re_error
             | b # bs \<Rightarrow>
                 if b \<noteq> CHR ''<'' \<or> CHR ''>'' \<notin> set bs then Inl Re_error
                 else (case group_ref (takeWhile (\<lambda>x. x \<noteq> CHR ''>'') bs) of
                         Inl x \<Rightarrow> Inl x
                       | Inr it \<Rightarrow>
                           map_sum id (Cons it)
                             (parse_template (tl (dropWhile (\<lambda>x. x \<noteq> CHR ''>'') bs)))))
          else if e = CHR ''0'' then
            (let ds = takeWhile octdigit (take 2 es)
             in map_sum id (Cons (TChar (char_of (foldl (\<lambda>a d. 8 * a + digit_val d) 0 ds))))
                  (parse_template (drop (length ds) es)))
          else if digit e then
            (case es of
               d1 # d2 # ds \<Rightarrow>
                 if octdigit e \<and> octdigit d1 \<and> octdigit d2 then
                   (let v = 64 * digit_val e + 8 * digit_val d1 + digit_val d2
                    in if v > 255 then Inl Re_error
                       else map_sum id (Cons (TChar (char_of v))) (parse_template ds))
                 else Inl Re_error
             | _ \<Rightarrow> Inl Re_error)
          else
            (case simple_escape e of
               Some x \<Rightarrow> map_sum id (Cons (TChar x)) (parse_template es)
             | None \<Rightarrow>
                 if ascii_letter e then Inl Re_error
                 else map_sum id (\<lambda>r. TChar c # TChar e # r) (parse_template es)))"
  by pat_completeness auto
termination
proof (relation "measure length", goal_cases)
  case (3 c cs e es b bs)
  have "length (tl (dropWhile (\<lambda>x. x \<noteq> CHR ''>'') bs)) \<le> length bs"
    using length_dropWhile_le [of "\<lambda>x. x \<noteq> CHR ''>''" bs] by simp
  with 3 show ?case by simp
qed auto

declare parse_template.simps [simp del]

definition expand :: "titem list \<Rightarrow> string \<Rightarrow> string" where
  "expand t m = concat (map (\<lambda>i. case i of TChar c \<Rightarrow> [c] | TMatch \<Rightarrow> m) t)"

definition re_sub :: "re \<Rightarrow> string \<Rightarrow> string \<Rightarrow> exn + string" where
  "re_sub r repl s =
     (case parse_template repl of
        Inl e \<Rightarrow> Inl e
      | Inr t \<Rightarrow>
          (let (ms, after) = scan r s
           in Inr (concat (map (\<lambda>(pre, g, m). pre @ expand t m) ms) @ after)))"


section \<open>The environment: configuration, HTTP, files, log\<close>

text \<open>
  The module-level variables the functions read. \<open>headers\<close> is the dictionary given to
  \<open>requests.get\<close>, or \<open>None\<close>.
\<close>

record config =
  filepath :: string
  log_method :: int
  log_level :: int
  headers :: "(string \<times> string) list option"

type_synonym byte = "8 word"

text \<open>
  What the program reads of a \<open>requests.Response\<close>: \<open>content\<close> is the raw body, \<open>text_body\<close> is \<open>text\<close>,
  the body decoded to a \<open>str\<close>, \<open>content_type\<close> the value of \<open>headers.get('content-type')\<close>.
\<close>

record response =
  status_code :: int
  text_body :: string
  content :: "byte list"
  content_type :: "string option"

datatype fetched = Raised string | Responded response

text \<open>
  The network answers a GET of a URL with given headers by a response or by an exception;
  the file system maps a path that exists to the text of the file.
\<close>

type_synonym http = "(string \<times> string) list option \<Rightarrow> string \<Rightarrow> fetched"
type_synonym files = "string \<Rightarrow> string option"

text \<open>
  What a run does besides computing its result, in the order it does it: the GET requests
  it sends, the lines it appends to the log file, the lines it prints. A printed line is
  kept as its prefix and its content, without the colour codes around them.
\<close>

datatype prefix = Tag string | Status int | Message exn

datatype event =
    Get string "(string \<times> string) list option"
  | File_line string
  | Printed "prefix option" string

text \<open>
  \<open>requests.get\<close> prepares a request before it sends it. It strips the blanks before the
  URL and sends the request only through the adapters of \<open>http://\<close> and \<open>https://\<close>, looked
  up without regard to case: for any other URL, one without a scheme among them, it raises
  (\<open>MissingSchema\<close>, \<open>InvalidSchema\<close> or \<open>InvalidURL\<close>) and nothing is sent. What becomes of a
  request that is sent, an exception of the connection included, is the network's answer.
\<close>

definition ascii_lower :: "char \<Rightarrow> char" where
  "ascii_lower c =
     (if 65 \<le> (of_char c :: nat) \<and> (of_char c :: nat) \<le> 90 then char_of (of_char c + 32 :: nat)
      else c)"

definition sendable :: "string \<Rightarrow> bool" where
  "sendable url =
     (let u = map ascii_lower (dropWhile isspace url)
      in startswith u ''http://'' \<or> startswith u ''https://'')"

definition requests_get ::
  "http \<Rightarrow> (string \<times> string) list option \<Rightarrow> string \<Rightarrow> (exn + response) \<times> event list" where
  "requests_get net h url =
     (if sendable url
      then (case net h url of
              Raised msg \<Rightarrow> Inl (Request_exception msg)
            | Responded response \<Rightarrow> Inr response,
            [Get url h])
      else (Inl (Unsendable_url url), []))"

definition log :: "config \<Rightarrow> string \<Rightarrow> prefix option \<Rightarrow> event list" where
  "log cfg line pre =
     (if log_method cfg \<in> {2, 3} then [File_line line] else []) @
     (if log_method cfg \<in> {1, 3} then [Printed pre line] else [])"

text \<open>A logging call under an \<open>if\<close>.\<close>

definition log_if :: "bool \<Rightarrow> config \<Rightarrow> string \<Rightarrow> prefix option \<Rightarrow> event list" where
  "log_if b cfg line pre = (if b then log cfg line pre else [])"

section \<open>Base64\<close>

definition b64chars :: string where
  "b64chars = ''ABCDEFGHIJKLMNOPQRSTUVWXYZabcdefghijklmnopqrstuvwxyz0123456789+/''"

definition sextet :: "byte \<Rightarrow> char" where
  "sextet w = b64chars ! unat (w AND 63)"

fun b64encode :: "byte list \<Rightarrow> string" where
  "b64encode [] = []"
| "b64encode [a] =
     [sextet (drop_bit 2 a), sextet (push_bit 4 (a AND 3)), CHR ''='', CHR ''='']"
| "b64encode [a, b] =
     [sextet (drop_bit 2 a), sextet (push_bit 4 (a AND 3) OR drop_bit 4 b),
      sextet (push_bit 2 (b AND 15)), CHR ''='']"
| "b64encode (a # b # c # bs) =
     [sextet (drop_bit 2 a), sextet (push_bit 4 (a AND 3) OR drop_bit 4 b),
      sextet (push_bit 2 (b AND 15) OR drop_bit 6 c), sextet c] @ b64encode bs"

section \<open>The patterns of the program\<close>

definition seq :: "re list \<Rightarrow> re" where
  "seq rs = foldr Cat rs Eps"

definition chr :: "char \<Rightarrow> re" where
  "chr c = Sym (Lit c)"

text \<open>\<open>['"]\<close>\<close>

definition quote :: re where
  "quote = Sym (OneOf [CHR 0x27, CHR 0x22])"

text \<open>\<open>/\*[^*]*\*+(?:[^*/][^*]*\*+)*/\<close>\<close>

definition comment_re :: re where
  "comment_re =
     seq [str ''/*'', Star (Sym (NoneOf ''*'')), Plus (chr CHR ''*''),
          Star (seq [Sym (NoneOf ''*/''), Star (Sym (NoneOf ''*'')), Plus (chr CHR ''*'')]),
          chr CHR ''/'']"

text \<open>\<open>\s+\<close>\<close>

definition spaces_re :: re where
  "spaces_re = Plus (Sym Space)"

text \<open>\<open>@import\s+(url\()?['"]?(.*?)['"]?\)?;\<close>\<close>

definition import_re :: re where
  "import_re =
     seq [str ''@import'', Plus (Sym Space), Opt (Grp 1 (str ''url('')), Opt quote,
          Grp 2 (LazyStar (Sym Dot)), Opt quote, Opt (chr CHR '')''), chr CHR '';'']"

text \<open>\<open>url\(['"]?(.*?)['"]?\)\<close>\<close>

definition asset_re :: re where
  "asset_re =
     seq [str ''url('', Opt quote, Grp 1 (LazyStar (Sym Dot)), Opt quote, chr CHR '')'']"

text \<open>\<open>@import\s+(?:url\()?['"]?{re.escape(url)}['"]?\)?;\<close>\<close>

definition import_stmt_re :: "string \<Rightarrow> re" where
  "import_stmt_re url =
     seq [str ''@import'', Plus (Sym Space), Opt (str ''url(''), Opt quote, str url,
          Opt quote, Opt (chr CHR '')''), chr CHR '';'']"

section \<open>The program\<close>

text \<open>
  Each function returns its result together with the events of the call. A template that
  \<open>re.sub\<close> rejects cannot occur in \<open>test_minify_css\<close>: both replacement strings are free
  of backslashes.
\<close>

definition sub_or_same :: "re \<Rightarrow> string \<Rightarrow> string \<Rightarrow> string" where
  "sub_or_same r repl s = (case re_sub r repl s of Inl e \<Rightarrow> s | Inr s' \<Rightarrow> s')"

definition test_minify_css :: "string \<Rightarrow> string" where
  "test_minify_css css =
     (let css = sub_or_same comment_re [] css;
          css = sub_or_same spaces_re '' '' css;
          css = strip css
      in css)"

definition test_import_extractor :: "string \<Rightarrow> string list" where
  "test_import_extractor css = map (\<lambda>g. group g 2) (findall import_re css)"

definition test_asset_extractor :: "config \<Rightarrow> string \<Rightarrow> string list \<times> event list" where
  "test_asset_extractor cfg css =
     (map (\<lambda>g. group g 1) (findall asset_re css),
      log_if (log_level cfg \<in> {1, 2}) cfg ''Extracting URLs...'' None)"

text \<open>
  One round of the loop of \<open>test_import_resolver\<close>. The recursive call of
  \<open>test_resolve_css\<close> is the parameter \<open>resolve\<close>; it gives \<open>None\<close> when that call does not
  return, and then the round does not return either. Every exception raised inside the
  \<open>try\<close> ends the round with the text as it was.
\<close>

definition import_round ::
  "(string \<Rightarrow> (string \<times> event list) option) \<Rightarrow> config \<Rightarrow> http \<Rightarrow> string \<Rightarrow> string
     \<Rightarrow> (string \<times> event list) option" where
  "import_round resolve cfg net url embedded =
     (let ev0 = log_if (log_level cfg = 2) cfg (''Embedding content of '' @ url @ ''...'')
                  (Some (Tag ''verbose''))
      in if startswith url ''/'' \<and> log_level cfg \<in> {1, 2}
         then Some (embedded, ev0 @ log cfg (''Skipping broken import url: '' @ url) None)
         else
           (let (answer, sent) = requests_get net (headers cfg) url;
                ev1 = ev0 @ log_if (log_level cfg = 2) cfg (''Requesting '' @ url @ ''...'')
                              (Some (Tag ''verbose''))
                          @ sent
            in case answer of
                 Inl e \<Rightarrow>
                   Some (embedded,
                         ev1 @ log_if (log_level cfg \<in> {1, 2}) cfg (''Error embedding '' @ url)
                                 (Some (Message e)))
               | Inr response \<Rightarrow>
                   if status_code response = 200 then
                     (let ev2 = ev1 @ log_if (log_level cfg = 2) cfg
                                        (''Embedding '' @ url @ ''...'') (Some (Tag ''verbose''))
                      in case resolve (text_body response) of
                           None \<Rightarrow> None
                         | Some (resolved_content, ev3) \<Rightarrow>
                             (case re_sub (import_stmt_re url) resolved_content embedded of
                                Inl e \<Rightarrow>
                                  Some (embedded,
                                        ev2 @ ev3 @ log_if (log_level cfg \<in> {1, 2}) cfg
                                                      (''Error embedding '' @ url)
                                                      (Some (Message e)))
                              | Inr embedded' \<Rightarrow>
                                  Some (embedded',
                                        ev2 @ ev3 @ log cfg (''Failed to download: '' @ url)
                                                      (Some (Status (status_code response))))))
                   else Some (embedded, ev1)))"

fun test_import_resolver ::
  "(string \<Rightarrow> (string \<times> event list) option) \<Rightarrow> config \<Rightarrow> http \<Rightarrow> string list \<Rightarrow> string
     \<Rightarrow> (string \<times> event list) option" where
  "test_import_resolver resolve cfg net [] embedded = Some (embedded, [])"
| "test_import_resolver resolve cfg net (url # urls) embedded =
     (case import_round resolve cfg net url embedded of
        None \<Rightarrow> None
      | Some (embedded', ev) \<Rightarrow>
          (case test_import_resolver resolve cfg net urls embedded' of
             None \<Rightarrow> None
           | Some (result, ev') \<Rightarrow> Some (result, ev @ ev')))"

text \<open>
  One round of the loop of \<open>test_asset_resolver\<close>. \<open>content_type\<close> is formatted into the
  f-string, where \<open>None\<close> prints as \<open>None\<close>.
\<close>

definition format_opt :: "string option \<Rightarrow> string" where
  "format_opt v = (case v of None \<Rightarrow> ''None'' | Some s \<Rightarrow> s)"

definition asset_round :: "config \<Rightarrow> http \<Rightarrow> string \<Rightarrow> string \<Rightarrow> string \<times> event list" where
  "asset_round cfg net url embedded =
     (if contains ''data:'' url
      then (embedded, log_if (log_level cfg = 2) cfg ''Skipping data url...''
                        (Some (Tag ''verbose'')))
      else if startswith url ''/'' \<and> log_level cfg \<in> {1, 2}
      then (embedded, log cfg (''Skipping broken asset url: '' @ url) None)
      else
        (let (answer, sent) = requests_get net (headers cfg) url;
             ev1 = log_if (log_level cfg = 2) cfg (''Requesting '' @ url @ ''...'')
                     (Some (Tag ''verbose''))
                   @ sent
         in case answer of
              Inl e \<Rightarrow>
                (embedded,
                 ev1 @ log_if (log_level cfg \<in> {1, 2}) cfg (''Error embedding '' @ url)
                         (Some (Message e)))
            | Inr response \<Rightarrow>
                if status_code response = 200 then
                  (let ev2 = ev1 @ log_if (log_level cfg = 2) cfg
                                     (''Embedding '' @ url @ ''...'') (Some (Tag ''verbose''));
                       data = b64encode (content response)
                   in (str_replace embedded url
                         (''data:'' @ format_opt (content_type response) @ '';base64,'' @ data),
                       ev2))
                else (embedded,
                      ev1 @ log_if (log_level cfg \<in> {1, 2}) cfg (''Failed to download: '' @ url)
                              (Some (Status (status_code response))))))"

fun test_asset_resolver ::
  "config \<Rightarrow> http \<Rightarrow> string list \<Rightarrow> string \<Rightarrow> string \<times> event list" where
  "test_asset_resolver cfg net [] embedded = (embedded, [])"
| "test_asset_resolver cfg net (url # urls) embedded =
     (let (embedded', ev) = asset_round cfg net url embedded;
          (result, ev') = test_asset_resolver cfg net urls embedded'
      in (result, ev @ ev'))"

text \<open>
  \<open>test_resolve_css\<close> and \<open>test_import_resolver\<close> call each other, and nothing bounds the
  depth of the imports: on a chain of imports that never ends the call does not return. The
  first argument bounds the depth of the calls of \<open>test_resolve_css\<close>; \<open>None\<close> says that the
  bound was too small.
\<close>

primrec test_resolve_css ::
  "nat \<Rightarrow> config \<Rightarrow> http \<Rightarrow> string \<Rightarrow> (string \<times> event list) option" where
  "test_resolve_css 0 cfg net css = None"
| "test_resolve_css (Suc n) cfg net css =
     (case test_import_resolver (test_resolve_css n cfg net) cfg net
             (test_import_extractor css) css of
        None \<Rightarrow> None
      | Some (embedded, ev) \<Rightarrow>
          (let (assets, ev') = test_asset_extractor cfg embedded;
               (embedded', ev'') = test_asset_resolver cfg net assets embedded
           in Some (embedded', ev @ ev' @ ev'')))"

text \<open>
  \<open>test_extract\<close>. The module defines no \<open>resolve_css\<close> and no \<open>minify_css\<close> (its functions
  are \<open>test_resolve_css\<close> and \<open>test_minify_css\<close>), so the call \<open>resolve_css(css)\<close> raises
  \<open>NameError\<close>. An exception of \<open>requests.get\<close> is not caught here. The result \<open>Inr None\<close>
  is the bare \<open>return\<close>.
\<close>

definition test_extract ::
  "config \<Rightarrow> http \<Rightarrow> files \<Rightarrow> string \<Rightarrow> bool \<Rightarrow> (exn + string option) \<times> event list" where
  "test_extract cfg net fs path compress =
     (if startswith path ''http'' \<and> contains ''://'' path then
        (let (answer, sent) = requests_get net (headers cfg) (filepath cfg);
             ev = log_if (log_level cfg \<in> {1, 2}) cfg (''Downloading css file: '' @ path) None
                  @ sent
         in case answer of
              Inl e \<Rightarrow> (Inl e, ev)
            | Inr response \<Rightarrow> (Inl (NameError ''resolve_css''), ev))
      else
        (case fs (filepath cfg) of
           None \<Rightarrow>
             (Inr None,
              log cfg (''The path '' @ filepath cfg @ '' does not exist. Skipping...'') None)
         | Some css \<Rightarrow> (Inl (NameError ''resolve_css''), [])))"


section \<open>Notions used in the statements\<close>

text \<open>The URLs of the GET requests among the events of a run, in order.\<close>

fun gets :: "event list \<Rightarrow> string list" where
  "gets [] = []"
| "gets (Get u h # es) = u # gets es"
| "gets (File_line l # es) = gets es"
| "gets (Printed p l # es) = gets es"

text \<open>The GET of a URL fails: it raises, or answers with a status other than 200.\<close>

definition fetch_fails :: "config \<Rightarrow> http \<Rightarrow> string \<Rightarrow> bool" where
  "fetch_fails cfg net url =
     (case net (headers cfg) url of
        Raised msg \<Rightarrow> True
      | Responded response \<Rightarrow> status_code response \<noteq> 200)"

subsection \<open>A small site\<close>

text \<open>
  The configuration of the module as it is imported, the one of a run with
  \<open>--log-method 0 --log-level 0\<close>, and a network that serves a handful of URLs, answers
  404 for any other URL of the host \<open>h\<close> and refuses every other connection.
\<close>

definition cfg_default :: config where
  "cfg_default = \<lparr>filepath = [], log_method = 1, log_level = 1, headers = None\<rparr>"

definition cfg_silent :: config where
  "cfg_silent = \<lparr>filepath = [], log_method = 0, log_level = 0, headers = None\<rparr>"

definition not_found :: response where
  "not_found =
     \<lparr>status_code = 404, text_body = ''Not Found'', content = [], content_type = None\<rparr>"

definition ok_css :: "string \<Rightarrow> response" where
  "ok_css body =
     \<lparr>status_code = 200, text_body = body, content = map (of_nat \<circ> of_char) body,
      content_type = Some ''text/css''\<rparr>"

definition ok_png :: response where
  "ok_png =
     \<lparr>status_code = 200, text_body = [CHR 0xFF], content = [0xFF],
      content_type = Some ''image/png''\<rparr>"

definition site :: http where
  "site h u =
     (if u = ''http://h/sub.css'' then Responded (ok_css ''.x{background:url(http://h/i.png)}'')
      else if u = ''http://h/i.png'' then Responded ok_png
      else if u = ''http://x/data:y.png'' then Responded ok_png
      else if u = ''http://h/icons.css'' then
        Responded (ok_css (''.i:before{content:\"'' @ [CHR 0x5C] @ ''e900\"}''))
      else if u = ''http://h/fa.css'' then
        Responded (ok_css (''.i:before{content:\"'' @ [CHR 0x5C] @ ''f101\"}''))
      else if u = ''http://h/down'' then Raised ''timeout''
      else if startswith u ''http://h/'' then Responded not_found
      else Raised ''connection refused'')"

definition one_file :: files where
  "one_file = Map.empty(''style.css'' \<mapsto> ''a{}'')"

subsection \<open>Import statements\<close>





subsection \<open>Whitespace\<close>

text \<open>
  What replacing every \<open>\s+\<close> by one blank comes to: each run of whitespace becomes a blank.
  A text is \<open>normal\<close> when its only whitespace is single blanks.
\<close>

function squeeze :: "string \<Rightarrow> string" where
  "squeeze [] = []"
| "squeeze (c # cs) =
     (if isspace c then CHR '' '' # squeeze (dropWhile isspace cs) else c # squeeze cs)"
  by pat_completeness auto
termination
  by (relation "measure length") (auto simp: less_Suc_eq_le length_dropWhile_le)

fun normal :: "string \<Rightarrow> bool" where
  "normal [] = True"
| "normal [c] = (isspace c \<longrightarrow> c = CHR '' '')"
| "normal (c # d # cs) = ((isspace c \<longrightarrow> c = CHR '' '' \<and> \<not> isspace d) \<and> normal (d # cs))"

section \<open>Events\<close>

lemma gets_append [simp]: "gets (xs @ ys) = gets xs @ gets ys"
  by (induction xs rule: gets.induct) simp_all

lemma gets_log [simp]: "gets (log cfg line pre) = []"
  by (simp add: log_def)

lemma gets_log_if [simp]: "gets (log_if b cfg line pre) = []"
  by (simp add: log_if_def)

section \<open>The resolvers, one URL at a time\<close>

lemma import_resolver_Cons_text:
  "map_option fst (test_import_resolver resolve cfg net (u # us) css) =
     (case import_round resolve cfg net u css of
        None \<Rightarrow> None
      | Some (t, ev) \<Rightarrow> map_option fst (test_import_resolver resolve cfg net us t))"
  by (auto split: option.splits)

lemma asset_resolver_Cons_text:
  "fst (test_asset_resolver cfg net (u # us) css) =
     fst (test_asset_resolver cfg net us (fst (asset_round cfg net u css)))"
  by (simp split: prod.splits)

text \<open>A URL whose round never changes the text can be dropped from the list.\<close>

lemma import_resolver_drop:
  assumes "\<And>css. \<exists>ev. import_round resolve cfg net url css = Some (css, ev)"
  shows "map_option fst (test_import_resolver resolve cfg net (us @ url # vs) css) =
         map_option fst (test_import_resolver resolve cfg net (us @ vs) css)"
proof (induction us arbitrary: css)
  case Nil
  from assms obtain ev
    where "import_round resolve cfg net url css = Some (css, ev)" by blast
  then show ?case by (simp only: append_Nil import_resolver_Cons_text option.case prod.case)
next
  case (Cons u us)
  show ?case
    by (simp only: append_Cons import_resolver_Cons_text Cons.IH)
qed

lemma asset_resolver_drop:
  assumes "\<And>css. fst (asset_round cfg net url css) = css"
  shows "fst (test_asset_resolver cfg net (us @ url # vs) css) =
         fst (test_asset_resolver cfg net (us @ vs) css)"
proof (induction us arbitrary: css)
  case Nil
  show ?case
    by (simp only: append_Nil asset_resolver_Cons_text assms)
next
  case (Cons u us)
  show ?case
    by (simp only: append_Cons asset_resolver_Cons_text Cons.IH)
qed

lemma import_round_failed:
  "fetch_fails cfg net url \<Longrightarrow> \<exists>ev. import_round resolve cfg net url css = Some (css, ev)"
  by (auto simp: import_round_def fetch_fails_def requests_get_def Let_def
           split: fetched.splits)

lemma asset_round_failed:
  "fetch_fails cfg net url \<Longrightarrow> fst (asset_round cfg net url css) = css"
  by (auto simp: asset_round_def fetch_fails_def requests_get_def Let_def
           split: fetched.splits)

lemma import_resolver_skip:
  assumes "fetch_fails cfg net url"
  shows "map_option fst (test_import_resolver resolve cfg net (us @ url # vs) css) =
         map_option fst (test_import_resolver resolve cfg net (us @ vs) css)"
  by (rule import_resolver_drop) (rule import_round_failed [OF assms])

lemma asset_resolver_skip:
  assumes "fetch_fails cfg net url"
  shows "fst (test_asset_resolver cfg net (us @ url # vs) css) =
         fst (test_asset_resolver cfg net (us @ vs) css)"
  by (rule asset_resolver_drop) (rule asset_round_failed [OF assms])

text \<open>When a round of the asset resolver sends a request.\<close>

lemma asset_round_gets:
  "gets (snd (asset_round cfg net url css)) =
     (if contains ''data:'' url \<or> (startswith url ''/'' \<and> log_level cfg \<in> {1, 2})
         \<or> \<not> sendable url
      then [] else [url])"
  by (auto simp: asset_round_def requests_get_def Let_def split: fetched.splits)

section \<open>Root-relative URLs\<close>

text \<open>
  A URL that begins with \<open>/\<close> has no scheme. At log level 1 or 2 the resolvers pass over
  it; at any other log level they hand it to \<open>requests.get\<close>, which raises before anything
  is sent, and the \<open>except\<close> clause ends the round.
\<close>

lemma root_relative_unsendable: "startswith url ''/'' \<Longrightarrow> \<not> sendable url"
  by (cases url)
     (auto simp: startswith_def sendable_def isspace_def ascii_lower_def Let_def)

lemma import_round_root_relative:
  "startswith url ''/'' \<Longrightarrow>
     \<exists>ev. import_round resolve cfg net url css = Some (css, ev) \<and> gets ev = []"
  by (frule root_relative_unsendable)
     (simp add: import_round_def requests_get_def Let_def)

lemma asset_round_root_relative:
  "startswith url ''/'' \<Longrightarrow>
     fst (asset_round cfg net url css) = css \<and> gets (snd (asset_round cfg net url css)) = []"
  by (frule root_relative_unsendable)
     (simp add: asset_round_def requests_get_def Let_def)

text \<open>
  C1. For a URL that begins with \<open>/\<close>, whatever the log method and the log level: the round
  of either resolver returns, sends no request and leaves the text as it was; and the text
  that either resolver returns for a list of URLs is the one it returns for the list without
  that URL.
\<close>

theorem root_relative_is_skipped:
  "startswith url ''/'' \<Longrightarrow>
     map_option fst (import_round resolve cfg net url css) = Some css \<and>
     map_option (\<lambda>r. gets (snd r)) (import_round resolve cfg net url css) = Some [] \<and>
     fst (asset_round cfg net url css) = css \<and>
     gets (snd (asset_round cfg net url css)) = [] \<and>
     map_option fst (test_import_resolver resolve cfg net (us @ url # vs) css) =
     map_option fst (test_import_resolver resolve cfg net (us @ vs) css) \<and>
     fst (test_asset_resolver cfg net (us @ url # vs) css) =
     fst (test_asset_resolver cfg net (us @ vs) css)"
proof -
  assume root: "startswith url ''/''"
  from import_round_root_relative [OF root] obtain ev
    where "import_round resolve cfg net url css = Some (css, ev)" "gets ev = []" by blast
  then have 1: "map_option fst (import_round resolve cfg net url css) = Some css"
    and 2: "map_option (\<lambda>r. gets (snd r)) (import_round resolve cfg net url css) = Some []"
    by simp_all
  have 3: "map_option fst (test_import_resolver resolve cfg net (us @ url # vs) css) =
     map_option fst (test_import_resolver resolve cfg net (us @ vs) css)"
  proof (rule import_resolver_drop)
    fix t
    from import_round_root_relative [OF root, of resolve cfg net t]
    show "\<exists>ev. import_round resolve cfg net url t = Some (t, ev)" by blast
  qed
  have 4: "fst (test_asset_resolver cfg net (us @ url # vs) css) =
     fst (test_asset_resolver cfg net (us @ vs) css)"
    by (rule asset_resolver_drop) (simp add: asset_round_root_relative [OF root])
  from 1 2 3 4 asset_round_root_relative [OF root, of cfg net css] show ?thesis
    by simp
qed

text \<open>
  With logging disabled, \<open>/local/file.css\<close> next to a stylesheet that the site serves.
\<close>

theorem root_relative_is_skipped_witness:
  "startswith ''/local/file.css'' ''/'' \<and>
   test_import_resolver (test_resolve_css (Suc 0) cfg_silent site) cfg_silent site
       [''/local/file.css'']
       (''@import '' @ [CHR 0x27] @ ''/local/file.css'' @ [CHR 0x27] @ '';'') =
     Some (''@import '' @ [CHR 0x27] @ ''/local/file.css'' @ [CHR 0x27] @ '';'', []) \<and>
   test_asset_resolver cfg_silent site [''/local/img.png'']
       ''a{background:url(/local/img.png)}'' = (''a{background:url(/local/img.png)}'', []) \<and>
   map_option fst (test_import_resolver (test_resolve_css (Suc 0) cfg_silent site) cfg_silent
       site ([''http://h/fa.css''] @ ''/local/file.css'' # [''http://h/sub.css''])
       ''@import \"/local/file.css\"; @import \"http://h/sub.css\";'') =
   map_option fst (test_import_resolver (test_resolve_css (Suc 0) cfg_silent site) cfg_silent
       site ([''http://h/fa.css''] @ [''http://h/sub.css''])
       ''@import \"/local/file.css\"; @import \"http://h/sub.css\";'')"
proof -
  have h: "startswith ''/local/file.css'' ''/''"
    by (simp add: startswith_def)
  have 1: "test_import_resolver (test_resolve_css (Suc 0) cfg_silent site) cfg_silent site
       [''/local/file.css'']
       (''@import '' @ [CHR 0x27] @ ''/local/file.css'' @ [CHR 0x27] @ '';'') =
     Some (''@import '' @ [CHR 0x27] @ ''/local/file.css'' @ [CHR 0x27] @ '';'', [])"
    by code_simp
  have 2: "test_asset_resolver cfg_silent site [''/local/img.png'']
       ''a{background:url(/local/img.png)}'' = (''a{background:url(/local/img.png)}'', [])"
    by code_simp
  note all = root_relative_is_skipped [OF h,
      of "test_resolve_css (Suc 0) cfg_silent site" cfg_silent site
         "''@import \"/local/file.css\"; @import \"http://h/sub.css\";''"
         "[''http://h/fa.css'']" "[''http://h/sub.css'']"]
  have 3: "map_option fst (test_import_resolver (test_resolve_css (Suc 0) cfg_silent site)
       cfg_silent site ([''http://h/fa.css''] @ ''/local/file.css'' # [''http://h/sub.css''])
       ''@import \"/local/file.css\"; @import \"http://h/sub.css\";'') =
   map_option fst (test_import_resolver (test_resolve_css (Suc 0) cfg_silent site) cfg_silent
       site ([''http://h/fa.css''] @ [''http://h/sub.css''])
       ''@import \"/local/file.css\"; @import \"http://h/sub.css\";'')"
    by (rule conjunct1 [OF conjunct2 [OF conjunct2 [OF conjunct2 [OF conjunct2 [OF all]]]]])
  show ?thesis
    by (intro conjI h 1 2 3)
qed

section \<open>Data URLs\<close>

text \<open>
  C2. The asset resolver passes over a URL when \<open>data:\<close> occurs anywhere in it, not only at
  its beginning: the URL \<open>http://x/data:y.png\<close> begins neither with \<open>/\<close> nor with \<open>data:\<close>,
  the site would answer it with 200, and the round sends no request and leaves the text as
  it was.
\<close>

theorem data_inside_url_not_fetched:
  "\<not> startswith ''http://x/data:y.png'' ''/'' \<and>
   \<not> startswith ''http://x/data:y.png'' ''data:'' \<and>
   asset_round cfg_default site ''http://x/data:y.png'' ''a{background:url(http://x/data:y.png)}''
     = (''a{background:url(http://x/data:y.png)}'', [])"
  by code_simp

section \<open>Loading the root document\<close>

text \<open>
  C3. \<open>test_extract\<close> tests its argument \<open>path\<close> for a URL and then loads the module variable
  \<open>filepath\<close>. With the module as imported (\<open>filepath = ''\<close>), a call with a URL hands the
  empty URL to \<open>requests.get\<close>, which raises, and nothing is sent for \<open>path\<close>; a call with the
  path of a file that exists finds that \<open>''\<close> does not exist and returns \<open>None\<close>.
\<close>

theorem extract_loads_filepath_not_path:
  "test_extract cfg_default site one_file ''http://h/sub.css'' False =
     (Inl (Unsendable_url []), [Printed None ''Downloading css file: http://h/sub.css'']) \<and>
   one_file ''style.css'' = Some ''a{}'' \<and>
   test_extract cfg_default site one_file ''style.css'' False =
     (Inr None, [Printed None ''The path  does not exist. Skipping...''])"
  by code_simp

section \<open>Imports\<close>

text \<open>
  C4. The resolved body is given to \<open>re.sub\<close> as a replacement template. The stylesheet
  \<open>http://h/icons.css\<close> is served with status 200 and holds \<open>\e900\<close>, which is no escape of a
  template: \<open>re.sub\<close> raises and the \<open>@import\<close> statement stays. The stylesheet
  \<open>http://h/fa.css\<close> holds \<open>\f101\<close>: the statement is replaced, by a text in which a form
  feed stands for \<open>\f\<close>.
\<close>

theorem import_body_read_as_template:
  "test_import_resolver (test_resolve_css (Suc 0) cfg_silent site) cfg_silent site
     [''http://h/icons.css''] ''@import \"http://h/icons.css\";''
     = Some (''@import \"http://h/icons.css\";'', [Get ''http://h/icons.css'' None]) \<and>
   text_body (ok_css (''.i:before{content:\"'' @ [CHR 0x5C] @ ''f101\"}''))
     = ''.i:before{content:\"'' @ [CHR 0x5C, CHR ''f''] @ ''101\"}'' \<and>
   test_import_resolver (test_resolve_css (Suc 0) cfg_silent site) cfg_silent site
     [''http://h/fa.css''] ''@import \"http://h/fa.css\";''
     = Some (''.i:before{content:\"'' @ [CHR 0x0C] @ ''101\"}'', [Get ''http://h/fa.css'' None])"
  by code_simp

section \<open>Assets\<close>



section \<open>Failed fetches\<close>

text \<open>
  C6. A URL whose GET raises or answers with a status other than 200 changes nothing: the
  text that either resolver returns for a list of URLs is the text it returns for the list
  without that URL, wherever in the list the URL stands. (For the import resolver both sides
  are \<open>None\<close> when the resolution of another URL of the list does not return.)
\<close>

theorem failed_fetch_is_skipped:
  "fetch_fails cfg net url \<Longrightarrow>
     map_option fst (test_import_resolver resolve cfg net (us @ url # vs) css) =
     map_option fst (test_import_resolver resolve cfg net (us @ vs) css) \<and>
     fst (test_asset_resolver cfg net (us @ url # vs) css) =
     fst (test_asset_resolver cfg net (us @ vs) css)"
  by (simp add: import_resolver_skip asset_resolver_skip)

theorem failed_fetch_is_skipped_witness:
  "fetch_fails cfg_default site ''http://h/down'' \<and>
   map_option fst (test_import_resolver (test_resolve_css (Suc 0) cfg_default site)
       cfg_default site ([''http://h/gone.css''] @ ''http://h/down'' # [''http://h/sub.css''])
       ''@import \"http://h/sub.css\"; @import \"http://h/down\";'') =
   map_option fst (test_import_resolver (test_resolve_css (Suc 0) cfg_default site)
       cfg_default site ([''http://h/gone.css''] @ [''http://h/sub.css''])
       ''@import \"http://h/sub.css\"; @import \"http://h/down\";'') \<and>
   fst (test_asset_resolver cfg_default site
       ([''http://h/gone.css''] @ ''http://h/down'' # [''http://h/sub.css''])
       ''@import \"http://h/sub.css\"; @import \"http://h/down\";'') =
   fst (test_asset_resolver cfg_default site ([''http://h/gone.css''] @ [''http://h/sub.css''])
       ''@import \"http://h/sub.css\"; @import \"http://h/down\";'')"
proof -
  have h: "fetch_fails cfg_default site ''http://h/down''"
    by (simp add: fetch_fails_def site_def)
  show ?thesis
    by (rule conjI [OF h failed_fetch_is_skipped [OF h]])
qed

section \<open>The pipeline\<close>

text \<open>
  C7. \<open>test_resolve_css\<close> is the import resolver on the imports extracted from the text,
  followed by the asset resolver on the assets extracted from the text that the import
  resolver returned; it returns when the import resolver does, and its events are those of
  the stages in that order.
\<close>

theorem resolve_css_is_imports_then_assets:
  "test_resolve_css (Suc n) cfg net css =
     (case test_import_resolver (test_resolve_css n cfg net) cfg net
             (test_import_extractor css) css of
        None \<Rightarrow> None
      | Some (t, ev) \<Rightarrow>
          Some (fst (test_asset_resolver cfg net (fst (test_asset_extractor cfg t)) t),
                ev @ snd (test_asset_extractor cfg t)
                   @ snd (test_asset_resolver cfg net (fst (test_asset_extractor cfg t)) t)))"
  by (simp split: option.splits prod.splits)

text \<open>
  The example of the specification: the asset of an imported stylesheet is inlined in the
  same call.
\<close>

lemma resolve_css_end_to_end:
  "test_resolve_css 2 cfg_silent site ''@import url(\"http://h/sub.css\");'' =
     Some (''.x{background:url(data:image/png;base64,/w==)}'',
           [Get ''http://h/sub.css'' None, Get ''http://h/i.png'' None])"
  by code_simp

section \<open>No references\<close>

text \<open>
  C10. Either resolver returns the text unchanged for the empty list of URLs, and
  \<open>test_resolve_css\<close> returns unchanged a text in which neither extractor finds a URL.
\<close>

theorem no_references_identity:
  "test_import_resolver resolve cfg net [] css = Some (css, []) \<and>
   test_asset_resolver cfg net [] css = (css, []) \<and>
   (test_import_extractor css = [] \<and> fst (test_asset_extractor cfg css) = [] \<longrightarrow>
      map_option fst (test_resolve_css (Suc n) cfg net css) = Some css)"
  by (auto split: prod.splits)

theorem no_references_identity_witness:
  "test_import_extractor ''a{color:red}'' = [] \<and>
   fst (test_asset_extractor cfg_default ''a{color:red}'') = [] \<and>
   map_option fst (test_resolve_css (Suc 0) cfg_default site ''a{color:red}'') =
     Some ''a{color:red}''"
proof -
  have 1: "test_import_extractor ''a{color:red}'' = []"
    by code_simp
  have 2: "fst (test_asset_extractor cfg_default ''a{color:red}'') = []"
    by code_simp
  from no_references_identity [of "test_resolve_css 0 cfg_default site" cfg_default site
      "''a{color:red}''" 0]
  have "map_option fst (test_resolve_css (Suc 0) cfg_default site ''a{color:red}'') =
     Some ''a{color:red}''"
    using 1 2 by blast
  with 1 2 show ?thesis by blast
qed

section \<open>Properties of the matcher\<close>

text \<open>The equations of the matcher, applied to a state.\<close>

lemma bt_Eps [simp]: "bt Eps st = [st]"
  by (simp add: bt.simps)

lemma bt_Sym_Nil [simp]: "bt (Sym k) (g, []) = []"
  by (simp add: bt.simps)

lemma bt_Sym_Cons [simp]: "bt (Sym k) (g, c # cs) = (if accepts k c then [(g, cs)] else [])"
  by (simp add: bt.simps)

lemma bt_Cat [simp]: "bt (Cat r1 r2) st = concat (map (bt r2) (bt r1 st))"
  by (simp add: bt.simps)

lemma bt_Opt [simp]: "bt (Opt r) st = bt r st @ [st]"
  by (simp add: bt.simps)

lemma bt_Star [simp]: "bt (Star r) (g, s) = greedy (length s) (bt r) (g, s)"
  by (simp add: bt.simps)

lemma bt_Plus [simp]:
  "bt (Plus r) st = concat (map (\<lambda>st'. greedy (length (snd st')) (bt r) st') (bt r st))"
  by (simp add: bt.simps)

lemma bt_LazyStar [simp]: "bt (LazyStar r) (g, s) = lazy (length s) (bt r) (g, s)"
  by (simp add: bt.simps)

lemma bt_Grp [simp]:
  "bt (Grp n r) (g, s) =
     map (\<lambda>st'. ((n, take (length s - length (snd st')) s) # fst st', snd st')) (bt r (g, s))"
  by (simp add: bt.simps)

lemma accepts_Space [simp]: "accepts Space = isspace"
  by (rule ext) simp

text \<open>A greedy repetition of a character class first takes all it can.\<close>

lemma greedy_sym_hd:
  "length s \<le> n \<Longrightarrow> \<exists>more. greedy n (bt (Sym k)) (g, s) = (g, dropWhile (accepts k) s) # more"
proof (induction n arbitrary: s)
  case 0
  then show ?case by simp
next
  case (Suc n)
  show ?case
  proof (cases s)
    case Nil
    then show ?thesis by simp
  next
    case (Cons c cs)
    show ?thesis
    proof (cases "accepts k c")
      case True
      from Suc.prems Cons have "length cs \<le> n" by simp
      from Suc.IH [OF this] obtain more
        where "greedy n (bt (Sym k)) (g, cs) = (g, dropWhile (accepts k) cs) # more" by blast
      with True Cons show ?thesis by simp
    next
      case False
      with Cons show ?thesis by simp
    qed
  qed
qed

lemma match_at_spaces:
  "match_at spaces_re s =
     (case s of
        [] \<Rightarrow> None
      | c # cs \<Rightarrow>
          if isspace c
          then Some ([], take (length s - length (dropWhile isspace cs)) s, dropWhile isspace cs)
          else None)"
proof (cases s)
  case Nil
  then show ?thesis by (simp add: match_at_def spaces_re_def)
next
  case (Cons c cs)
  show ?thesis
  proof (cases "isspace c")
    case True
    from greedy_sym_hd [of cs "length cs" Space "[]"] obtain more
      where "greedy (length cs) (bt (Sym Space)) ([], cs) = ([], dropWhile isspace cs) # more"
      by auto
    with True Cons show ?thesis
      by (simp add: match_at_def spaces_re_def less_Suc_eq_le length_dropWhile_le)
  next
    case False
    with Cons show ?thesis by (simp add: match_at_def spaces_re_def)
  qed
qed

text \<open>Whatever a pattern leaves is a suffix of the text it was given.\<close>

lemma greedy_suffix:
  assumes f: "\<And>st st'. st' \<in> set (f st) \<Longrightarrow> suffix (snd st') (snd st)"
  shows "st' \<in> set (greedy n f st) \<Longrightarrow> suffix (snd st') (snd st)"
proof (induction n arbitrary: st)
  case 0
  then show ?case by simp
next
  case (Suc n)
  from Suc.prems consider "st' = st"
    | st1 where "st1 \<in> set (f st)" "st' \<in> set (greedy n f st1)"
    by (auto split: if_splits)
  then show ?case
  proof cases
    case 1
    then show ?thesis by simp
  next
    case 2
    from Suc.IH [OF 2(2)] f [OF 2(1)] show ?thesis
      by (rule suffix_order.trans)
  qed
qed

lemma lazy_suffix:
  assumes f: "\<And>st st'. st' \<in> set (f st) \<Longrightarrow> suffix (snd st') (snd st)"
  shows "st' \<in> set (lazy n f st) \<Longrightarrow> suffix (snd st') (snd st)"
proof (induction n arbitrary: st)
  case 0
  then show ?case by simp
next
  case (Suc n)
  from Suc.prems consider "st' = st"
    | st1 where "st1 \<in> set (f st)" "st' \<in> set (lazy n f st1)"
    by (auto split: if_splits)
  then show ?case
  proof cases
    case 1
    then show ?thesis by simp
  next
    case 2
    from Suc.IH [OF 2(2)] f [OF 2(1)] show ?thesis
      by (rule suffix_order.trans)
  qed
qed

lemma bt_suffix: "st' \<in> set (bt r st) \<Longrightarrow> suffix (snd st') (snd st)"
proof (induction r arbitrary: st st')
  case Eps
  then show ?case by simp
next
  case (Sym k)
  then show ?case
    by (cases st; cases "snd st") (auto simp: suffix_Cons split: if_splits)
next
  case (Cat r1 r2)
  from Cat.prems obtain st1 where "st1 \<in> set (bt r1 st)" "st' \<in> set (bt r2 st1)"
    by auto
  from Cat.IH(2) [OF this(2)] Cat.IH(1) [OF this(1)] show ?case
    by (rule suffix_order.trans)
next
  case (Opt r)
  from Opt.prems consider "st' \<in> set (bt r st)" | "st' = st"
    by auto
  then show ?case
    by cases (simp_all add: Opt.IH)
next
  case (Star r)
  from Star.prems have "st' \<in> set (greedy (length (snd st)) (bt r) st)"
    by (cases st) simp
  then show ?case
    by (rule greedy_suffix [rotated]) (rule Star.IH)
next
  case (Plus r)
  from Plus.prems obtain st1 where 1: "st1 \<in> set (bt r st)"
    and 2: "st' \<in> set (greedy (length (snd st1)) (bt r) st1)"
    by auto
  have "suffix (snd st') (snd st1)"
    using 2 by (rule greedy_suffix [rotated]) (rule Plus.IH)
  then show ?case
    using Plus.IH [OF 1] by (rule suffix_order.trans)
next
  case (LazyStar r)
  from LazyStar.prems have "st' \<in> set (lazy (length (snd st)) (bt r) st)"
    by (cases st) simp
  then show ?case
    by (rule lazy_suffix [rotated]) (rule LazyStar.IH)
next
  case (Grp n r)
  from Grp.prems obtain st1 where "st1 \<in> set (bt r st)" "snd st' = snd st1"
    by (cases st) auto
  with Grp.IH [of st1 st] show ?case by simp
qed

lemma match_at_decomp:
  "match_at r s = Some (g, m, rest) \<Longrightarrow> s = m @ rest \<and> m \<noteq> []"
proof -
  assume a: "match_at r s = Some (g, m, rest)"
  then obtain more where bt: "bt r ([], s) = (g, rest) # more"
    and m: "m = take (length s - length rest) s" and lt: "length rest < length s"
    by (auto simp: match_at_def split: list.splits if_splits)
  from bt have "(g, rest) \<in> set (bt r ([], s))" by simp
  from bt_suffix [OF this] obtain p where p: "s = p @ rest"
    by (auto simp: suffix_def)
  with m lt show ?thesis by auto
qed

text \<open>The matches and the text between them make up the scanned text.\<close>

lemma scan_decomp:
  "scan r s = (ms, after) \<Longrightarrow>
     concat (map (\<lambda>(pre, g, m). pre @ m) ms) @ after = s \<and> (\<forall>(pre, g, m) \<in> set ms. m \<noteq> [])"
proof (induction r s arbitrary: ms after rule: scan.induct)
  case (1 r s)
  show ?case
  proof (cases "match_at r s")
    case None
    show ?thesis
    proof (cases s)
      case Nil
      with None "1.prems" show ?thesis by (simp add: scan.simps [of r "[]"])
    next
      case (Cons c cs)
      obtain ms' after' where sc: "scan r cs = (ms', after')" by (cases "scan r cs")
      from "1.IH"(1) [OF None Cons sc]
      have ih: "concat (map (\<lambda>(pre, g, m). pre @ m) ms') @ after' = cs"
        "\<forall>(pre, g, m) \<in> set ms'. m \<noteq> []" by auto
      from "1.prems" None Cons sc ih show ?thesis
        by (auto simp: scan.simps [of r "c # cs"] split: list.splits)
    qed
  next
    case (Some a)
    obtain g m rest where a: "a = (g, m, rest)" by (cases a)
    from match_at_decomp [OF Some [unfolded a]] have s: "s = m @ rest" and m: "m \<noteq> []"
      by auto
    then have lt: "length rest < length s" by simp
    obtain ms' after' where sc: "scan r rest = (ms', after')" by (cases "scan r rest")
    from "1.IH"(2) [OF Some a [symmetric] refl lt sc]
    have ih: "concat (map (\<lambda>(pre, g, m). pre @ m) ms') @ after' = rest"
      "\<forall>(pre, g, m) \<in> set ms'. m \<noteq> []" by auto
    from "1.prems" Some a lt sc have "ms = ([], g, m) # ms'" "after = after'"
      by (auto simp: scan.simps [of r s])
    with ih s m show ?thesis by auto
  qed
qed


lemma parse_template_plain [simp]:
  "c \<noteq> CHR 0x5C \<Longrightarrow> parse_template (c # cs) = map_sum id (Cons (TChar c)) (parse_template cs)"
  by (simp add: parse_template.simps)

lemma expand_Nil [simp]: "expand [] m = []"
  by (simp add: expand_def)

lemma expand_TChar [simp]: "expand [TChar c] m = [c]"
  by (simp add: expand_def)

lemma sub_or_same_delete:
  "sub_or_same r [] s = (case scan r s of (ms, after) \<Rightarrow> concat (map fst ms) @ after)"
proof -
  have "(\<lambda>(pre, g, m). pre @ expand [] m) = (fst :: string \<times> groups \<times> string \<Rightarrow> string)"
    by (rule ext) (simp split: prod.splits)
  then show ?thesis
    by (simp add: sub_or_same_def re_sub_def parse_template.simps split: prod.splits)
qed


lemma delete_shrinks:
  assumes "\<forall>(pre, g, m) \<in> set ms. m \<noteq> []" and "ms \<noteq> []"
  shows "length (concat (map fst ms)) < length (concat (map (\<lambda>(pre, g, m). pre @ m) ms))"
  using assms
proof (induction ms)
  case Nil
  then show ?case by simp
next
  case (Cons x ms)
  obtain pre g m where x: "x = (pre, g, m)" by (cases x)
  with Cons.prems have m: "m \<noteq> []" by simp
  show ?case
  proof (cases "ms = []")
    case True
    with x m show ?thesis by simp
  next
    case False
    with Cons have "length (concat (map fst ms))
        < length (concat (map (\<lambda>(pre, g, m). pre @ m) ms))" by simp
    with x show ?thesis by simp
  qed
qed

lemma sub_or_same_delete_cases:
  "(findall r s = [] \<and> sub_or_same r [] s = s) \<or>
   (findall r s \<noteq> [] \<and> length (sub_or_same r [] s) < length s)"
proof -
  obtain ms after where sc: "scan r s = (ms, after)" by (cases "scan r s")
  from scan_decomp [OF sc]
  have s: "concat (map (\<lambda>(pre, g, m). pre @ m) ms) @ after = s"
    and ne: "\<forall>(pre, g, m) \<in> set ms. m \<noteq> []" by auto
  show ?thesis
  proof (cases "ms = []")
    case True
    with sc s show ?thesis by (simp add: sub_or_same_delete findall_def)
  next
    case False
    from delete_shrinks [OF ne False] s
    have "length (concat (map fst ms) @ after) < length s" by auto
    with False sc show ?thesis by (simp add: sub_or_same_delete findall_def)
  qed
qed

lemma scan_spaces:
  "scan spaces_re s = (ms, after) \<Longrightarrow>
     concat (map (\<lambda>x. fst x @ '' '') ms) @ after = squeeze s"
proof (induction s arbitrary: ms after rule: length_induct)
  case (1 s)
  show ?case
  proof (cases s)
    case Nil
    with "1.prems" show ?thesis
      by (simp add: scan.simps [of spaces_re "[]"] match_at_spaces)
  next
    case (Cons c cs)
    show ?thesis
    proof (cases "isspace c")
      case True
      let ?rest = "dropWhile isspace cs"
      have lt: "length ?rest < length s"
        using Cons length_dropWhile_le [of isspace cs] by simp
      obtain ms' after' where sc: "scan spaces_re ?rest = (ms', after')"
        by (cases "scan spaces_re ?rest")
      from "1.IH" lt sc
      have ih: "concat (map (\<lambda>x. fst x @ '' '') ms') @ after' = squeeze ?rest"
        by blast
      from "1.prems" Cons True lt sc
      have "\<exists>m. ms = ([], [], m) # ms'" "after = after'"
        by (auto simp: scan.simps [of spaces_re "c # cs"] match_at_spaces)
      with ih Cons True show ?thesis by auto
    next
      case False
      obtain ms' after' where sc: "scan spaces_re cs = (ms', after')"
        by (cases "scan spaces_re cs")
      from "1.IH" Cons sc
      have ih: "concat (map (\<lambda>x. fst x @ '' '') ms') @ after' = squeeze cs"
        by simp
      from "1.prems" Cons False sc ih show ?thesis
        by (auto simp: scan.simps [of spaces_re "c # cs"] match_at_spaces split: list.splits)
    qed
  qed
qed

lemma sub_or_same_spaces: "sub_or_same spaces_re '' '' s = squeeze s"
proof -
  obtain ms after where sc: "scan spaces_re s = (ms, after)" by (cases "scan spaces_re s")
  have "(\<lambda>(pre, g, m). pre @ expand [TChar CHR '' ''] m)
          = (\<lambda>x :: string \<times> groups \<times> string. fst x @ '' '')"
    by (rule ext) (simp split: prod.splits)
  with scan_spaces [OF sc] sc show ?thesis
    by (simp add: sub_or_same_def re_sub_def parse_template.simps)
qed


section \<open>Whitespace\<close>

lemma length_squeeze: "length (squeeze s) \<le> length s"
proof (induction s rule: squeeze.induct)
  case 1
  then show ?case by simp
next
  case (2 c cs)
  then show ?case
    using length_dropWhile_le [of isspace cs] by auto
qed

lemma length_strip: "length (strip s) \<le> length s"
proof -
  have "length (strip s) \<le> length (dropWhile isspace s)"
    using length_dropWhile_le [of isspace "rev (dropWhile isspace s)"] by (simp add: strip_def)
  also have "\<dots> \<le> length s" by (rule length_dropWhile_le)
  finally show ?thesis .
qed

lemma normal_Cons_other: "\<not> isspace c \<Longrightarrow> normal t \<Longrightarrow> normal (c # t)"
  by (cases t) simp_all

lemma normal_Cons_blank: "t = [] \<or> \<not> isspace (hd t) \<Longrightarrow> normal t \<Longrightarrow> normal (CHR '' '' # t)"
  by (cases t) auto

lemma squeeze_hd: "s \<noteq> [] \<Longrightarrow> \<not> isspace (hd s) \<Longrightarrow> squeeze s \<noteq> [] \<and> hd (squeeze s) = hd s"
  by (cases s) auto

lemma squeeze_dropWhile_hd:
  "squeeze (dropWhile isspace cs) = [] \<or> \<not> isspace (hd (squeeze (dropWhile isspace cs)))"
proof (cases "dropWhile isspace cs = []")
  case True
  then have "squeeze (dropWhile isspace cs) = []" by (simp only: squeeze.simps)
  then show ?thesis by (rule disjI1)
next
  case False
  then have "\<not> isspace (hd (dropWhile isspace cs))" by (rule hd_dropWhile)
  with False squeeze_hd [of "dropWhile isspace cs"] show ?thesis by simp
qed

lemma normal_squeeze: "normal (squeeze s)"
proof (induction s rule: squeeze.induct)
  case 1
  then show ?case by simp
next
  case (2 c cs)
  show ?case
  proof (cases "isspace c")
    case True
    with 2 have "normal (squeeze (dropWhile isspace cs))" by simp
    with squeeze_dropWhile_hd [of cs] have "normal (CHR '' '' # squeeze (dropWhile isspace cs))"
      by (rule normal_Cons_blank)
    with True show ?thesis by simp
  next
    case False
    with 2 have "normal (squeeze cs)" by simp
    with False have "normal (c # squeeze cs)" by (rule normal_Cons_other)
    with False show ?thesis by simp
  qed
qed

lemma squeeze_normal: "normal s \<Longrightarrow> squeeze s = s"
proof (induction s rule: normal.induct)
  case 1
  then show ?case by simp
next
  case (2 c)
  then show ?case by simp
next
  case (3 c d cs)
  then show ?case by auto
qed

lemma normal_tl: "normal (c # t) \<Longrightarrow> normal t"
  by (cases t) simp_all

lemma normal_append_right: "normal (a @ b) \<Longrightarrow> normal b"
  by (induction a) (auto dest: normal_tl)

lemma normal_append_left: "normal (a @ b) \<Longrightarrow> normal a"
proof (induction a rule: normal.induct)
  case 1
  then show ?case by simp
next
  case (2 c)
  then show ?case by (cases b) auto
next
  case (3 c d cs)
  then show ?case by auto
qed

lemma strip_infix: "\<exists>a b. s = a @ strip s @ b"
proof -
  let ?a = "dropWhile isspace s"
  have 1: "s = takeWhile isspace s @ ?a" by simp
  have "rev (takeWhile isspace (rev ?a) @ dropWhile isspace (rev ?a))
          = rev (dropWhile isspace (rev ?a)) @ rev (takeWhile isspace (rev ?a))"
    by (rule rev_append)
  then have "rev (rev ?a) = rev (dropWhile isspace (rev ?a)) @ rev (takeWhile isspace (rev ?a))"
    by (simp only: takeWhile_dropWhile_id)
  then have 2: "?a = strip s @ rev (takeWhile isspace (rev ?a))"
    by (simp only: rev_rev_ident strip_def)
  from 1 2 have "s = takeWhile isspace s @ strip s @ rev (takeWhile isspace (rev ?a))"
    by simp
  then show ?thesis by blast
qed

lemma normal_strip: "normal s \<Longrightarrow> normal (strip s)"
proof -
  assume n: "normal s"
  from strip_infix obtain a b where "s = a @ strip s @ b" by blast
  with n have "normal (a @ strip s @ b)" by simp
  then have "normal (strip s @ b)" by (rule normal_append_right)
  then show ?thesis by (rule normal_append_left)
qed

lemma strip_ends: "strip s = [] \<or> (\<not> isspace (hd (strip s)) \<and> \<not> isspace (last (strip s)))"
proof (cases "strip s = []")
  case True
  then show ?thesis by simp
next
  case False
  let ?a = "dropWhile isspace s"
  let ?b = "dropWhile isspace (rev ?a)"
  from False have b: "?b \<noteq> []" by (simp add: strip_def)
  then have hb: "\<not> isspace (hd ?b)" by (rule hd_dropWhile)
  have a: "?a \<noteq> []"
  proof
    assume "?a = []"
    then have "?b = []" by (simp only: rev.simps dropWhile.simps)
    with b show False ..
  qed
  then have ha: "\<not> isspace (hd ?a)" by (rule hd_dropWhile)
  have "rev ?a = takeWhile isspace (rev ?a) @ ?b" by simp
  with b have "last (rev ?a) = last ?b" by (metis last_appendR)
  with a have "last ?b = hd ?a" by (simp add: last_rev)
  with b have "hd (strip s) = hd ?a" by (simp add: strip_def hd_rev)
  moreover from b have "last (strip s) = hd ?b" by (simp add: strip_def last_rev)
  ultimately show ?thesis using ha hb by simp
qed

lemma strip_id: "t = [] \<or> (\<not> isspace (hd t) \<and> \<not> isspace (last t)) \<Longrightarrow> strip t = t"
proof (cases "t = []")
  case True
  then show ?thesis by (simp add: strip_def)
next
  case False
  assume "t = [] \<or> (\<not> isspace (hd t) \<and> \<not> isspace (last t))"
  with False have h: "\<not> isspace (hd t)" and l: "\<not> isspace (last t)" by auto
  from False h have 1: "dropWhile isspace t = t" by (cases t) auto
  from False l have "\<not> isspace (hd (rev t))" by (simp add: hd_rev)
  with False have 2: "dropWhile isspace (rev t) = rev t" by (cases "rev t") auto
  from 1 2 show ?thesis by (simp add: strip_def)
qed

lemma strip_squeeze_idem: "strip (squeeze (strip (squeeze s))) = strip (squeeze s)"
proof -
  have "normal (strip (squeeze s))" by (rule normal_strip [OF normal_squeeze])
  then have "squeeze (strip (squeeze s)) = strip (squeeze s)" by (rule squeeze_normal)
  moreover have "strip (strip (squeeze s)) = strip (squeeze s)"
    by (rule strip_id [OF strip_ends])
  ultimately show ?thesis by simp
qed

lemma minify_unfold:
  "test_minify_css css = strip (squeeze (sub_or_same comment_re [] css))"
  by (simp add: test_minify_css_def sub_or_same_spaces)

section \<open>The import extractor\<close>













lemma isspace_blank [simp]: "isspace CHR '' ''"
  by (simp add: isspace_def)










section \<open>The minifier\<close>

text \<open>
  C9, as the claim states it, fails: removing the comment \<open>/* c */\<close> from \<open>//* c */* x */\<close>
  joins a \<open>/\<close> and a \<open>*\<close> into the opening of a comment that only a second call removes.
\<close>

theorem minify_not_idempotent:
  "test_minify_css ''//* c */* x */'' = ''/* x */'' \<and>
   test_minify_css (test_minify_css ''//* c */* x */'') = [] \<and>
   test_minify_css (test_minify_css ''//* c */* x */'') \<noteq> test_minify_css ''//* c */* x */''"
  by code_simp

text \<open>
  C9, amended: minifying twice gives what minifying once gives exactly for the texts \<open>x\<close>
  whose minified text holds no comment, that is, in which the pattern of comments finds no
  match.
\<close>

theorem minify_idempotent_iff:
  "test_minify_css (test_minify_css x) = test_minify_css x \<longleftrightarrow>
     findall comment_re (test_minify_css x) = []"
proof
  assume "findall comment_re (test_minify_css x) = []"
  with sub_or_same_delete_cases [of comment_re "test_minify_css x"]
  have "sub_or_same comment_re [] (test_minify_css x) = test_minify_css x" by auto
  then have "test_minify_css (test_minify_css x) = strip (squeeze (test_minify_css x))"
    by (simp add: minify_unfold [of "test_minify_css x"])
  also have "\<dots> = test_minify_css x"
    by (simp add: minify_unfold [of x] strip_squeeze_idem)
  finally show "test_minify_css (test_minify_css x) = test_minify_css x" .
next
  assume eq: "test_minify_css (test_minify_css x) = test_minify_css x"
  show "findall comment_re (test_minify_css x) = []"
  proof (rule ccontr)
    assume "findall comment_re (test_minify_css x) \<noteq> []"
    with sub_or_same_delete_cases [of comment_re "test_minify_css x"]
    have lt: "length (sub_or_same comment_re [] (test_minify_css x)) < length (test_minify_css x)"
      by auto
    have "length (test_minify_css (test_minify_css x))
            \<le> length (squeeze (sub_or_same comment_re [] (test_minify_css x)))"
      by (simp add: minify_unfold [of "test_minify_css x"] length_strip)
    also have "\<dots> \<le> length (sub_or_same comment_re [] (test_minify_css x))"
      by (rule length_squeeze)
    finally have "length (test_minify_css (test_minify_css x)) < length (test_minify_css x)"
      using lt by simp
    with eq show False by simp
  qed
qed

end
